theory Spec2Isabelle
  imports Main "HOL-Library.Word"
begin

section \<open>JavaScript values used by the node\<close>

text \<open>
  Numbers of the program (amounts, fees, nonces, chain lengths, timestamps, proofs) are
  integers in the range a JavaScript number represents exactly; they are modelled as
  \<open>int\<close>. Strings are lists of characters.
\<close>

subsection \<open>\<open>Map\<close>: insertion-ordered association lists\<close>

text \<open>
  A JavaScript \<open>Map\<close> keeps its entries in insertion order; \<open>set\<close> on a key that is
  present replaces the value where the entry stands, on a new key it appends the entry.
\<close>

definition Map_get :: "('k \<times> 'v) list \<Rightarrow> 'k \<Rightarrow> 'v option" where
  "Map_get m k = map_of m k"

definition Map_has :: "('k \<times> 'v) list \<Rightarrow> 'k \<Rightarrow> bool" where
  "Map_has m k = (map_of m k \<noteq> None)"

fun Map_set :: "('k \<times> 'v) list \<Rightarrow> 'k \<Rightarrow> 'v \<Rightarrow> ('k \<times> 'v) list" where
  "Map_set [] k v = [(k, v)]"
| "Map_set (p # ps) k v = (if fst p = k then (k, v) # ps else p # Map_set ps k v)"

definition Map_delete :: "('k \<times> 'v) list \<Rightarrow> 'k \<Rightarrow> ('k \<times> 'v) list" where
  "Map_delete m k = filter (\<lambda>p. fst p \<noteq> k) m"

definition Map_values :: "('k \<times> 'v) list \<Rightarrow> 'v list" where
  "Map_values m = map snd m"

subsection \<open>\<open>JSON.stringify\<close>\<close>

datatype json =
    JNull
  | JBool bool
  | JNum int
  | JStr string
  | JArr "json list"
  | JObj "(string \<times> json) list"

definition digit_char :: "nat \<Rightarrow> char" where
  "digit_char d = char_of (48 + d)"

fun show_nat :: "nat \<Rightarrow> string" where
  "show_nat n = (if n < 10 then [digit_char n] else show_nat (n div 10) @ [digit_char (n mod 10)])"

declare show_nat.simps [simp del]

definition show_int :: "int \<Rightarrow> string" where
  "show_int i = (if i < 0 then CHR ''-'' # show_nat (nat (- i)) else show_nat (nat i))"

definition hex_char :: "nat \<Rightarrow> char" where
  "hex_char d = (if d < 10 then char_of (48 + d) else char_of (87 + d))"

text \<open>
  \<open>QuoteJSONString\<close>: the quote and the backslash are escaped, the control characters
  have their short escape or \<open>\u00XX\<close>, every other character stands for itself.
\<close>

definition escape_char :: "char \<Rightarrow> string" where
  "escape_char c =
     (if c = CHR 0x22 then [CHR 0x5C, CHR 0x22]
      else if c = CHR 0x5C then [CHR 0x5C, CHR 0x5C]
      else if c = CHR 0x08 then [CHR 0x5C, CHR ''b'']
      else if c = CHR 0x09 then [CHR 0x5C, CHR ''t'']
      else if c = CHR 0x0A then [CHR 0x5C, CHR ''n'']
      else if c = CHR 0x0C then [CHR 0x5C, CHR ''f'']
      else if c = CHR 0x0D then [CHR 0x5C, CHR ''r'']
      else if (of_char c :: nat) < 32
        then [CHR 0x5C, CHR ''u'', CHR ''0'', CHR ''0'',
              hex_char (of_char c div 16), hex_char (of_char c mod 16)]
      else [c])"

definition quote :: "string \<Rightarrow> string" where
  "quote s = CHR 0x22 # concat (map escape_char s) @ [CHR 0x22]"

fun JSON_stringify :: "json \<Rightarrow> string"
  and stringify_elements :: "json list \<Rightarrow> string"
  and stringify_members :: "(string \<times> json) list \<Rightarrow> string"
where
  "JSON_stringify JNull = ''null''"
| "JSON_stringify (JBool b) = (if b then ''true'' else ''false'')"
| "JSON_stringify (JNum i) = show_int i"
| "JSON_stringify (JStr s) = quote s"
| "JSON_stringify (JArr xs) = CHR ''['' # stringify_elements xs @ '']''"
| "JSON_stringify (JObj ms) = CHR ''{'' # stringify_members ms @ ''}''"
| "stringify_elements [] = []"
| "stringify_elements [x] = JSON_stringify x"
| "stringify_elements (x # y # ys) = JSON_stringify x @ CHR '','' # stringify_elements (y # ys)"
| "stringify_members [] = []"
| "stringify_members [(k, v)] = quote k @ CHR '':'' # JSON_stringify v"
| "stringify_members ((k, v) # m # ms) =
     quote k @ CHR '':'' # JSON_stringify v @ CHR '','' # stringify_members (m # ms)"

text \<open>
  A property whose value is \<open>undefined\<close> is left out of the object by
  \<open>JSON.stringify\<close>.
\<close>

definition optional_member :: "string \<Rightarrow> json option \<Rightarrow> (string \<times> json) list" where
  "optional_member k v = (case v of None \<Rightarrow> [] | Some j \<Rightarrow> [(k, j)])"

subsection \<open>\<open>JSON.parse\<close>\<close>

text \<open>
  The parser reads the JSON grammar, white space between the tokens included. A number
  is read when it is an integer numeral; \<open>None\<close> stands for a \<open>SyntaxError\<close>, and
  for a text with a fraction, an exponent or a character escape beyond \<open>\u00ff\<close>, which
  have no value in this model. The fuel bounds the nesting and the number of elements
  read; \<open>JSON_parse\<close> gives as much as the text is long.
\<close>

definition hex_value :: "char \<Rightarrow> nat option" where
  "hex_value ch =
     (let n = (of_char ch :: nat) in
      if 48 \<le> n \<and> n \<le> 57 then Some (n - 48)
      else if 97 \<le> n \<and> n \<le> 102 then Some (n - 87)
      else if 65 \<le> n \<and> n \<le> 70 then Some (n - 55)
      else None)"

definition is_ws :: "char \<Rightarrow> bool" where
  "is_ws ch = (ch = CHR 0x20 \<or> ch = CHR 0x09 \<or> ch = CHR 0x0A \<or> ch = CHR 0x0D)"

definition skip_ws :: "string \<Rightarrow> string" where
  "skip_ws s = dropWhile is_ws s"

definition is_digit :: "char \<Rightarrow> bool" where
  "is_digit ch = (48 \<le> (of_char ch :: nat) \<and> (of_char ch :: nat) \<le> 57)"

definition digit_value :: "char \<Rightarrow> nat" where
  "digit_value ch = of_char ch - 48"

definition digits_value :: "string \<Rightarrow> nat" where
  "digits_value ds = foldl (\<lambda>a ch. a * 10 + digit_value ch) 0 ds"

definition parse_number :: "string \<Rightarrow> (int \<times> string) option" where
  "parse_number s =
     (let neg = (s \<noteq> [] \<and> hd s = CHR ''-'');
          s1 = (if neg then tl s else s);
          ds = takeWhile is_digit s1;
          rest = dropWhile is_digit s1
      in if ds = [] then None
         else if length ds > 1 \<and> hd ds = CHR ''0'' then None
         else if rest \<noteq> [] \<and> (hd rest = CHR ''.'' \<or> hd rest = CHR ''e'' \<or> hd rest = CHR ''E'') then None
         else Some (if neg then - int (digits_value ds) else int (digits_value ds), rest))"

definition unescape :: "char \<Rightarrow> char option" where
  "unescape e =
     (if e = CHR 0x22 then Some (CHR 0x22)
      else if e = CHR 0x5C then Some (CHR 0x5C)
      else if e = CHR ''/'' then Some (CHR ''/'')
      else if e = CHR ''b'' then Some (CHR 0x08)
      else if e = CHR ''f'' then Some (CHR 0x0C)
      else if e = CHR ''n'' then Some (CHR 0x0A)
      else if e = CHR ''r'' then Some (CHR 0x0D)
      else if e = CHR ''t'' then Some (CHR 0x09)
      else None)"

definition hex4 :: "char \<Rightarrow> char \<Rightarrow> char \<Rightarrow> char \<Rightarrow> nat option" where
  "hex4 a b c d =
     (case (hex_value a, hex_value b, hex_value c, hex_value d) of
        (Some w, Some x, Some y, Some z) \<Rightarrow> Some (((w * 16 + x) * 16 + y) * 16 + z)
      | _ \<Rightarrow> None)"

fun parse_chars :: "string \<Rightarrow> (string \<times> string) option" where
  "parse_chars [] = None"
| "parse_chars (ch # s) =
     (if ch = CHR 0x22 then Some ([], s)
      else if ch = CHR 0x5C then
        (case s of
           [] \<Rightarrow> None
         | e # s' \<Rightarrow>
             if e = CHR ''u'' then
               (case s' of
                  a # b # c # d # s'' \<Rightarrow>
                    (case hex4 a b c d of
                       None \<Rightarrow> None
                     | Some n \<Rightarrow>
                         if n < 256 then map_option (\<lambda>(str, r). (char_of n # str, r)) (parse_chars s'')
                         else None)
                | _ \<Rightarrow> None)
             else
               (case unescape e of
                  None \<Rightarrow> None
                | Some u \<Rightarrow> map_option (\<lambda>(str, r). (u # str, r)) (parse_chars s')))
      else if (of_char ch :: nat) < 32 then None
      else map_option (\<lambda>(str, r). (ch # str, r)) (parse_chars s))"

definition parse_literal :: "string \<Rightarrow> json \<Rightarrow> string \<Rightarrow> (json \<times> string) option" where
  "parse_literal lit v s = (if take (length lit) s = lit then Some (v, drop (length lit) s) else None)"

fun parse_value :: "nat \<Rightarrow> string \<Rightarrow> (json \<times> string) option"
  and parse_elements :: "nat \<Rightarrow> string \<Rightarrow> (json list \<times> string) option"
  and parse_members :: "nat \<Rightarrow> string \<Rightarrow> ((string \<times> json) list \<times> string) option"
where
  "parse_value 0 s = None"
| "parse_value (Suc n) s =
     (case skip_ws s of
        [] \<Rightarrow> None
      | ch # r \<Rightarrow>
          if ch = CHR ''{'' then
            (if skip_ws r \<noteq> [] \<and> hd (skip_ws r) = CHR ''}'' then Some (JObj [], tl (skip_ws r))
             else map_option (\<lambda>(ms, r'). (JObj ms, r')) (parse_members n r))
          else if ch = CHR ''['' then
            (if skip_ws r \<noteq> [] \<and> hd (skip_ws r) = CHR '']'' then Some (JArr [], tl (skip_ws r))
             else map_option (\<lambda>(vs, r'). (JArr vs, r')) (parse_elements n r))
          else if ch = CHR 0x22 then map_option (\<lambda>(str, r'). (JStr str, r')) (parse_chars r)
          else if ch = CHR ''n'' then parse_literal ''null'' JNull (ch # r)
          else if ch = CHR ''t'' then parse_literal ''true'' (JBool True) (ch # r)
          else if ch = CHR ''f'' then parse_literal ''false'' (JBool False) (ch # r)
          else map_option (\<lambda>(i, r'). (JNum i, r')) (parse_number (ch # r)))"
| "parse_elements 0 s = None"
| "parse_elements (Suc n) s =
     (case parse_value n s of
        None \<Rightarrow> None
      | Some (v, r) \<Rightarrow>
          (case skip_ws r of
             [] \<Rightarrow> None
           | ch # r' \<Rightarrow>
               if ch = CHR '','' then map_option (\<lambda>(vs, r''). (v # vs, r'')) (parse_elements n r')
               else if ch = CHR '']'' then Some ([v], r')
               else None))"
| "parse_members 0 s = None"
| "parse_members (Suc n) s =
     (case skip_ws s of
        [] \<Rightarrow> None
      | q # r \<Rightarrow>
          if q \<noteq> CHR 0x22 then None
          else
            (case parse_chars r of
               None \<Rightarrow> None
             | Some (k, r1) \<Rightarrow>
                 (case skip_ws r1 of
                    [] \<Rightarrow> None
                  | col # r2 \<Rightarrow>
                      if col \<noteq> CHR '':'' then None
                      else
                        (case parse_value n r2 of
                           None \<Rightarrow> None
                         | Some (v, r3) \<Rightarrow>
                             (case skip_ws r3 of
                                [] \<Rightarrow> None
                              | ch # r4 \<Rightarrow>
                                  if ch = CHR '','' then
                                    map_option (\<lambda>(ms, r5). ((k, v) # ms, r5)) (parse_members n r4)
                                  else if ch = CHR ''}'' then Some ([(k, v)], r4)
                                  else None)))))"

definition JSON_parse :: "string \<Rightarrow> json option" where
  "JSON_parse s =
     (case parse_value (Suc (length s)) s of
        None \<Rightarrow> None
      | Some (v, r) \<Rightarrow> if skip_ws r = [] then Some v else None)"


section \<open>Crypto primitives (utils)\<close>

text \<open>
  SHA-256 and the RSA signature scheme come from the platform; they are parameters of
  the model. A digest is a 256-bit word, rendered in hexadecimal (64 lowercase digits,
  most significant first) or in base64 (43 digits and one padding character).
\<close>

record crypto =
  sha256 :: "string \<Rightarrow> 256 word"
  rsa_sign :: "string \<Rightarrow> string \<Rightarrow> string"
  rsa_verify :: "string \<Rightarrow> string \<Rightarrow> string \<Rightarrow> bool"

datatype encoding = Hex | Base64

fun hex_digits :: "nat \<Rightarrow> nat \<Rightarrow> string" where
  "hex_digits 0 n = []"
| "hex_digits (Suc k) n = hex_digits k (n div 16) @ [hex_char (n mod 16)]"

definition base64_char :: "nat \<Rightarrow> char" where
  "base64_char d =
     (if d < 26 then char_of (65 + d)
      else if d < 52 then char_of (71 + d)
      else if d < 62 then char_of (d - 4)
      else if d = 62 then CHR ''+'' else CHR ''/'')"

fun base64_digits :: "nat \<Rightarrow> nat \<Rightarrow> string" where
  "base64_digits 0 n = []"
| "base64_digits (Suc k) n = base64_digits k (n div 64) @ [base64_char (n mod 64)]"

definition digest :: "256 word \<Rightarrow> encoding \<Rightarrow> string" where
  "digest w enc =
     (case enc of
        Hex \<Rightarrow> hex_digits 64 (unat w)
      | Base64 \<Rightarrow> base64_digits 43 (unat w * 4) @ ''='')"

definition hash :: "crypto \<Rightarrow> string \<Rightarrow> encoding \<Rightarrow> string" where
  "hash c s enc = digest (sha256 c s) enc"

definition sign :: "crypto \<Rightarrow> string \<Rightarrow> string \<Rightarrow> string" where
  "sign c privKey msg = rsa_sign c privKey msg"

definition verifySignature :: "crypto \<Rightarrow> string \<Rightarrow> string \<Rightarrow> string \<Rightarrow> bool" where
  "verifySignature c pubKey msg sg = rsa_verify c pubKey msg sg"

definition calcAddress :: "crypto \<Rightarrow> string \<Rightarrow> string" where
  "calcAddress c key = hash c key Base64"

definition addressMatchesKey :: "crypto \<Rightarrow> string \<Rightarrow> string \<Rightarrow> bool" where
  "addressMatchesKey c addr pubKey = (addr = calcAddress c pubKey)"

section \<open>Transaction\<close>

record tx_output =
  amount :: int
  address :: string

text \<open>
  The fields of a transaction, in the order the constructor assigns them; \<open>tx_from\<close>
  and \<open>tx_nonce\<close> are the source's \<open>from\<close> and \<open>nonce\<close>.
\<close>

record transaction =
  tx_from :: string
  tx_nonce :: int
  pubKey :: string
  sig :: "string option"
  fee :: int
  outputs :: "tx_output list"

definition output_json :: "tx_output \<Rightarrow> json" where
  "output_json out = JObj [(''amount'', JNum (amount out)), (''address'', JStr (address out))]"

definition tx_id :: "crypto \<Rightarrow> transaction \<Rightarrow> string" where
  "tx_id c t =
     hash c (''TX'' @ JSON_stringify (JObj
       [(''from'', JStr (tx_from t)),
        (''nonce'', JNum (tx_nonce t)),
        (''pubKey'', JStr (pubKey t)),
        (''outputs'', JArr (map output_json (outputs t))),
        (''fee'', JNum (fee t))])) Hex"

definition tx_sign :: "crypto \<Rightarrow> string \<Rightarrow> transaction \<Rightarrow> transaction" where
  "tx_sign c privKey t = t\<lparr>sig := Some (sign c privKey (tx_id c t))\<rparr>"

definition validSignature :: "crypto \<Rightarrow> transaction \<Rightarrow> bool" where
  "validSignature c t =
     (case sig t of
        None \<Rightarrow> False
      | Some sg \<Rightarrow> addressMatchesKey c (tx_from t) (pubKey t)
                  \<and> verifySignature c (pubKey t) (tx_id c t) sg)"

definition totalOutput :: "transaction \<Rightarrow> int" where
  "totalOutput t = foldl (\<lambda>totalValue out. totalValue + amount out) (fee t) (outputs t)"

definition sufficientFunds :: "transaction \<Rightarrow> (string \<times> int) list \<Rightarrow> bool" where
  "sufficientFunds t bal =
     (case Map_get bal (tx_from t) of
        None \<Rightarrow> False
      | Some balance \<Rightarrow> totalOutput t \<le> balance)"

text \<open>
  The own properties of a Transaction object, as \<open>JSON.stringify\<close> sees them: in
  the order the constructor assigns them, \<open>sig\<close> left out while it is undefined.
\<close>

definition tx_json :: "transaction \<Rightarrow> json" where
  "tx_json t = JObj
     ([(''from'', JStr (tx_from t)),
       (''nonce'', JNum (tx_nonce t)),
       (''pubKey'', JStr (pubKey t))]
      @ optional_member ''sig'' (map_option JStr (sig t))
      @ [(''fee'', JNum (fee t)),
         (''outputs'', JArr (map output_json (outputs t)))])"

section \<open>Block\<close>

text \<open>
  The two derived maps of a block, \<open>balances\<close> and \<open>nextNonce\<close>, are \<open>Map\<close> objects
  that the block refers to. The heap holds these objects; \<open>new Map(m)\<close> allocates a new
  object with a copy of the entries of \<open>m\<close>, and \<open>set\<close> writes the object in place.
\<close>

type_synonym ref = nat

record heap =
  cells :: "ref \<Rightarrow> (string \<times> int) list"
  next_ref :: ref

definition new_Map :: "heap \<Rightarrow> (string \<times> int) list \<Rightarrow> heap \<times> ref" where
  "new_Map h m = (h\<lparr>cells := (cells h)(next_ref h := m), next_ref := Suc (next_ref h)\<rparr>, next_ref h)"

definition heap_set :: "heap \<Rightarrow> ref \<Rightarrow> string \<Rightarrow> int \<Rightarrow> heap" where
  "heap_set h r k v = h\<lparr>cells := (cells h)(r := Map_set (cells h r) k v)\<rparr>"

text \<open>The fields of a block; \<open>blk_proof\<close> is the source's optional \<open>proof\<close>.\<close>

record block =
  prevBlockHash :: string
  target :: int
  balances :: ref
  nextNonce :: ref
  transactions :: "(string \<times> transaction) list"
  chainLength :: int
  timestamp :: int
  rewardAddr :: string
  coinbaseReward :: int
  blk_proof :: "int option"

definition POW_BASE_TARGET :: int where
  "POW_BASE_TARGET = 2 ^ 256 - 1"

definition HIT_POW_TARGET :: int where
  "HIT_POW_TARGET = POW_BASE_TARGET div 2 ^ 15"

definition NEAR_MISS_POW_TARGET :: int where
  "NEAR_MISS_POW_TARGET = POW_BASE_TARGET div 2 ^ 18"

definition COINBASE_AMT_ALLOWED :: int where
  "COINBASE_AMT_ALLOWED = 25"

definition GENESIS_REWARD_ADDR :: string where
  "GENESIS_REWARD_ADDR = []"

definition GENESIS_PREV_BLOCK_HASH :: string where
  "GENESIS_PREV_BLOCK_HASH = []"

definition serialize :: "block \<Rightarrow> string" where
  "serialize b = JSON_stringify (JObj
     ([(''transactions'', JArr (map (\<lambda>(k, t). JArr [JStr k, tx_json t]) (transactions b))),
       (''prevBlockHash'', JStr (prevBlockHash b)),
       (''timestamp'', JNum (timestamp b))]
      @ optional_member ''proof'' (map_option JNum (blk_proof b))
      @ [(''rewardAddr'', JStr (rewardAddr b)),
         (''chainLength'', JNum (chainLength b))]))"

definition hashVal :: "crypto \<Rightarrow> block \<Rightarrow> string" where
  "hashVal c b = hash c (serialize b) Hex"

definition block_id :: "crypto \<Rightarrow> block \<Rightarrow> string" where
  "block_id c b = hashVal c b"

definition isGenesisBlock :: "block \<Rightarrow> bool" where
  "isGenesisBlock b = (prevBlockHash b = GENESIS_PREV_BLOCK_HASH)"

text \<open>
  \<open>new BigInteger(h, 16)\<close> on a string of hexadecimal digits is the number they denote;
  \<open>None\<close> stands for a string that is no such number (a digest never is).
\<close>

fun BigInteger16_acc :: "nat \<Rightarrow> string \<Rightarrow> nat option" where
  "BigInteger16_acc acc [] = Some acc"
| "BigInteger16_acc acc (ch # s) =
     (case hex_value ch of
        None \<Rightarrow> None
      | Some d \<Rightarrow> BigInteger16_acc (acc * 16 + d) s)"

definition BigInteger16 :: "string \<Rightarrow> int option" where
  "BigInteger16 s = map_option int (BigInteger16_acc 0 s)"

definition hasValidProof :: "crypto \<Rightarrow> block \<Rightarrow> bool" where
  "hasValidProof c b =
     (let h = hash c (serialize b) Hex in
      case BigInteger16 h of
        None \<Rightarrow> False
      | Some n \<Rightarrow> n < target b)"

definition balanceOf :: "heap \<Rightarrow> block \<Rightarrow> string \<Rightarrow> int" where
  "balanceOf h b addr = (case Map_get (cells h (balances b)) addr of None \<Rightarrow> 0 | Some v \<Rightarrow> v)"

definition totalRewards :: "block \<Rightarrow> int" where
  "totalRewards b = foldl (\<lambda>reward (k, tx). reward + fee tx) (coinbaseReward b) (transactions b)"

text \<open>
  The constructor. \<open>now\<close> is the value of \<open>Date.now()\<close>; the defaults of \<open>target\<close> and
  \<open>coinbaseReward\<close> are \<open>HIT_POW_TARGET\<close> and \<open>COINBASE_AMT_ALLOWED\<close>. The reward of
  the previous block is credited only when that block has a non-empty reward address.
\<close>

definition new_Block ::
  "crypto \<Rightarrow> heap \<Rightarrow> int \<Rightarrow> string \<Rightarrow> block option \<Rightarrow> int \<Rightarrow> int \<Rightarrow> heap \<times> block" where
  "new_Block c h now rewardAddr' prevBlock target' coinbaseReward' =
     (let (h1, rb) = new_Map h (case prevBlock of Some p \<Rightarrow> cells h (balances p) | None \<Rightarrow> []);
          (h2, rn) = new_Map h1 (case prevBlock of Some p \<Rightarrow> cells h1 (nextNonce p) | None \<Rightarrow> []);
          b = \<lparr> prevBlockHash = (case prevBlock of Some p \<Rightarrow> hashVal c p | None \<Rightarrow> GENESIS_PREV_BLOCK_HASH),
                target = target',
                balances = rb,
                nextNonce = rn,
                transactions = [],
                chainLength = (case prevBlock of Some p \<Rightarrow> chainLength p + 1 | None \<Rightarrow> 0),
                timestamp = now,
                rewardAddr = rewardAddr',
                coinbaseReward = coinbaseReward',
                blk_proof = None \<rparr>;
          h3 = (case prevBlock of
                  None \<Rightarrow> h2
                | Some p \<Rightarrow>
                    if rewardAddr p \<noteq> [] then
                      heap_set h2 rb (rewardAddr p) (balanceOf h2 b (rewardAddr p) + totalRewards p)
                    else h2)
      in (h3, b))"

text \<open>
  \<open>addTransaction\<close> returns whether the transaction was admitted, with the heap and
  the block as it leaves them.
\<close>

definition addTransaction :: "crypto \<Rightarrow> heap \<Rightarrow> block \<Rightarrow> transaction \<Rightarrow> bool \<times> heap \<times> block" where
  "addTransaction c h b tx =
     (if Map_get (transactions b) (tx_id c tx) \<noteq> None then (False, h, b)
      else if sig tx = None then (False, h, b)
      else if \<not> validSignature c tx then (False, h, b)
      else if \<not> sufficientFunds tx (cells h (balances b)) then (False, h, b)
      else
        let nonce = (case Map_get (cells h (nextNonce b)) (tx_from tx) of None \<Rightarrow> 0 | Some n \<Rightarrow> n) in
        if tx_nonce tx < nonce then (False, h, b)
        else if tx_nonce tx > nonce then (False, h, b)
        else
          let h1 = heap_set h (nextNonce b) (tx_from tx) (nonce + 1);
              b1 = b\<lparr>transactions := Map_set (transactions b) (tx_id c tx) tx\<rparr>;
              senderBalance = balanceOf h1 b1 (tx_from tx);
              h2 = heap_set h1 (balances b1) (tx_from tx) (senderBalance - totalOutput tx);
              h3 = foldl (\<lambda>hh out.
                     heap_set hh (balances b1) (address out) (amount out + balanceOf hh b1 (address out)))
                     h2 (outputs tx)
          in (True, h3, b1))"

fun readd :: "crypto \<Rightarrow> heap \<Rightarrow> block \<Rightarrow> transaction list \<Rightarrow> bool \<times> heap \<times> block" where
  "readd c h b [] = (True, h, b)"
| "readd c h b (tx # txs) =
     (case addTransaction c h b tx of
        (success, h', b') \<Rightarrow> if \<not> success then (False, h', b') else readd c h' b' txs)"

text \<open>
  \<open>rerun\<close> credits the reward of the previous block whatever its reward address is.
\<close>

definition rerun :: "crypto \<Rightarrow> heap \<Rightarrow> block \<Rightarrow> block \<Rightarrow> bool \<times> heap \<times> block" where
  "rerun c h b prevBlock =
     (let (h1, rb) = new_Map h (cells h (balances prevBlock));
          (h2, rn) = new_Map h1 (cells h1 (nextNonce prevBlock));
          b1 = b\<lparr>balances := rb, nextNonce := rn\<rparr>;
          winnerBalance = balanceOf h2 b1 (rewardAddr prevBlock);
          h3 = heap_set h2 (balances b1) (rewardAddr prevBlock) (winnerBalance + totalRewards prevBlock);
          txs = transactions b1;
          b2 = b1\<lparr>transactions := []\<rparr>
      in readd c h3 b2 (Map_values txs))"

subsection \<open>Deserialization\<close>

text \<open>
  \<open>deserialize\<close> parses the text, constructs a block with the default target and
  reward, and sets its serialized fields. \<open>None\<close> stands for an exception, and for a
  text whose values are not of the types the fields have.
\<close>

text \<open>
  Reading a property of a parsed value: of the members with the same name the last one
  counts; \<open>None\<close> is \<open>undefined\<close>.
\<close>

definition json_member :: "json \<Rightarrow> string \<Rightarrow> json option" where
  "json_member j k = (case j of JObj ms \<Rightarrow> map_of (rev ms) k | _ \<Rightarrow> None)"

definition output_of_json :: "json \<Rightarrow> tx_output option" where
  "output_of_json j =
     (case j of
        JObj [(k1, JNum a), (k2, JStr addr)] \<Rightarrow>
          if k1 = ''amount'' \<and> k2 = ''address'' then Some \<lparr>amount = a, address = addr\<rparr> else None
      | _ \<Rightarrow> None)"

definition new_Transaction :: "json \<Rightarrow> transaction option" where
  "new_Transaction j =
     (case (json_member j ''from'', json_member j ''nonce'', json_member j ''pubKey'',
            json_member j ''outputs'') of
        (Some (JStr from'), Some (JNum nonce'), Some (JStr pubKey'), Some (JArr outs)) \<Rightarrow>
          (case those (map output_of_json outs) of
             None \<Rightarrow> None
           | Some outputs' \<Rightarrow>
               (case (json_member j ''sig'', json_member j ''fee'') of
                  (None, None) \<Rightarrow>
                    Some \<lparr>tx_from = from', tx_nonce = nonce', pubKey = pubKey', sig = None,
                          fee = 0, outputs = outputs'\<rparr>
                | (None, Some (JNum fee')) \<Rightarrow>
                    Some \<lparr>tx_from = from', tx_nonce = nonce', pubKey = pubKey', sig = None,
                          fee = fee', outputs = outputs'\<rparr>
                | (Some (JStr sig'), None) \<Rightarrow>
                    Some \<lparr>tx_from = from', tx_nonce = nonce', pubKey = pubKey', sig = Some sig',
                          fee = 0, outputs = outputs'\<rparr>
                | (Some (JStr sig'), Some (JNum fee')) \<Rightarrow>
                    Some \<lparr>tx_from = from', tx_nonce = nonce', pubKey = pubKey', sig = Some sig',
                          fee = fee', outputs = outputs'\<rparr>
                | _ \<Rightarrow> None))
      | _ \<Rightarrow> None)"

definition entry_of_json :: "json \<Rightarrow> (string \<times> transaction) option" where
  "entry_of_json j =
     (case j of
        JArr (JStr txID # txJson # _) \<Rightarrow> map_option (\<lambda>tx. (txID, tx)) (new_Transaction txJson)
      | _ \<Rightarrow> None)"

definition deserialize :: "crypto \<Rightarrow> heap \<Rightarrow> int \<Rightarrow> string \<Rightarrow> (heap \<times> block) option" where
  "deserialize c h now str =
     (case JSON_parse str of
        None \<Rightarrow> None
      | Some o' \<Rightarrow>
          (case (json_member o' ''rewardAddr'', json_member o' ''timestamp'',
                 json_member o' ''chainLength'', json_member o' ''prevBlockHash'',
                 json_member o' ''transactions'') of
             (Some (JStr rewardAddr'), Some (JNum timestamp'), Some (JNum chainLength'),
              Some (JStr prevBlockHash'), Some (JArr entries)) \<Rightarrow>
               (case those (map entry_of_json entries) of
                  None \<Rightarrow> None
                | Some txs \<Rightarrow>
                    (case new_Block c h now rewardAddr' None HIT_POW_TARGET COINBASE_AMT_ALLOWED of
                       (h1, b) \<Rightarrow>
                         (case json_member o' ''proof'' of
                            None \<Rightarrow>
                              Some (h1, b\<lparr>blk_proof := None, timestamp := timestamp',
                                chainLength := chainLength', prevBlockHash := prevBlockHash',
                                transactions := foldl (\<lambda>m (txID, tx). Map_set m txID tx) [] txs\<rparr>)
                          | Some (JNum proof') \<Rightarrow>
                              Some (h1, b\<lparr>blk_proof := Some proof', timestamp := timestamp',
                                chainLength := chainLength', prevBlockHash := prevBlockHash',
                                transactions := foldl (\<lambda>m (txID, tx). Map_set m txID tx) [] txs\<rparr>)
                          | _ \<Rightarrow> None)))
           | _ \<Rightarrow> None))"

section \<open>Node (Client)\<close>

text \<open>
  A client broadcasts and sends through the \<open>net\<close> object it was given; the calls it
  makes are recorded in \<open>net_calls\<close>, in order. Logging is left out. An exception is a
  value of \<open>js_error\<close>, returned with the state of the moment it is thrown. The blocks
  a client stores are values; the two maps of each block are objects of the heap.
  The fields \<open>public\<close> and \<open>private\<close> of a key pair are \<open>kp_public\<close> and \<open>kp_private\<close>,
  and the field \<open>address\<close> of a client is \<open>client_address\<close>.
\<close>

record keypair =
  kp_public :: string
  kp_private :: string

datatype payload = TxPayload transaction | TextPayload string

datatype net_call = Broadcast string payload | SendMessage string string payload

datatype js_error = InsufficientFunds int int | GenesisAlreadySet | TypeError | SyntaxError

definition MISSING_BLOCK :: string where
  "MISSING_BLOCK = ''MISSING_BLOCK''"

definition POST_TRANSACTION :: string where
  "POST_TRANSACTION = ''POST_TRANSACTION''"

definition PROOF_FOUND :: string where
  "PROOF_FOUND = ''PROOF_FOUND''"

definition DEFAULT_TX_FEE :: int where
  "DEFAULT_TX_FEE = 1"

definition CONFIRMED_DEPTH :: int where
  "CONFIRMED_DEPTH = 6"

record client =
  keyPair :: keypair
  client_address :: string
  nonce :: int
  pendingSpent :: int
  blocks :: "(string \<times> block) list"
  pendingBlocks :: "(string \<times> block list) list"
  lastConfirmedBlock :: "block option"
  lastBlock :: "block option"
  net_calls :: "net_call list"

definition setGenesisBlock ::
  "crypto \<Rightarrow> 'a client_scheme \<Rightarrow> block \<Rightarrow> js_error option \<times> 'a client_scheme" where
  "setGenesisBlock c cl startingBlock =
     (if lastBlock cl \<noteq> None then (Some GenesisAlreadySet, cl)
      else (None, cl\<lparr>lastConfirmedBlock := Some startingBlock,
                       lastBlock := Some startingBlock,
                       blocks := Map_set (blocks cl) (block_id c startingBlock) startingBlock\<rparr>))"

text \<open>The constructor; \<open>kp\<close> is the key pair that \<open>generateKeypair\<close> returns.\<close>

definition new_Client :: "crypto \<Rightarrow> keypair \<Rightarrow> block option \<Rightarrow> client" where
  "new_Client c kp startingBlock =
     (let cl = \<lparr> keyPair = kp, client_address = calcAddress c (kp_public kp), nonce = 0, pendingSpent = 0,
                  blocks = [], pendingBlocks = [], lastConfirmedBlock = None, lastBlock = None,
                  net_calls = [] \<rparr>
      in case startingBlock of None \<Rightarrow> cl | Some sb \<Rightarrow> snd (setGenesisBlock c cl sb))"

definition confirmedBalance :: "heap \<Rightarrow> 'a client_scheme \<Rightarrow> int option" where
  "confirmedBalance h cl =
     (case lastConfirmedBlock cl of None \<Rightarrow> None | Some b \<Rightarrow> Some (balanceOf h b (client_address cl)))"

definition availableGold :: "heap \<Rightarrow> 'a client_scheme \<Rightarrow> int option" where
  "availableGold h cl = map_option (\<lambda>confirmed. confirmed - pendingSpent cl) (confirmedBalance h cl)"

definition postTransaction ::
  "crypto \<Rightarrow> heap \<Rightarrow> 'a client_scheme \<Rightarrow> tx_output list \<Rightarrow> int \<Rightarrow> js_error option \<times> 'a client_scheme" where
  "postTransaction c h cl outs fee' =
     (let totalPayments = foldl (\<lambda>acc out. acc + amount out) 0 outs + fee' in
      case availableGold h cl of
        None \<Rightarrow> (Some TypeError, cl)
      | Some available \<Rightarrow>
          if totalPayments > available then (Some (InsufficientFunds totalPayments available), cl)
          else
            let tx = tx_sign c (kp_private (keyPair cl))
                       \<lparr> tx_from = client_address cl, tx_nonce = nonce cl, pubKey = kp_public (keyPair cl),
                         sig = None, fee = fee', outputs = outs \<rparr>
            in (None, cl\<lparr>nonce := nonce cl + 1,
                          net_calls := net_calls cl @ [Broadcast POST_TRANSACTION (TxPayload tx)]\<rparr>))"

definition requestMissingBlock :: "'a client_scheme \<Rightarrow> block \<Rightarrow> 'a client_scheme" where
  "requestMissingBlock cl b =
     cl\<lparr>net_calls := net_calls cl @
        [Broadcast MISSING_BLOCK (TextPayload (JSON_stringify
           (JObj [(''from'', JStr (client_address cl)), (''missing'', JStr (prevBlockHash b))])))]\<rparr>"

definition provideMissingBlock ::
  "'a client_scheme \<Rightarrow> string \<Rightarrow> js_error option \<times> 'a client_scheme" where
  "provideMissingBlock cl msg =
     (case JSON_parse msg of
        None \<Rightarrow> (Some SyntaxError, cl)
      | Some o' \<Rightarrow>
          (case (json_member o' ''missing'', json_member o' ''from'') of
             (Some (JStr missing), Some (JStr from')) \<Rightarrow>
               (case Map_get (blocks cl) missing of
                  None \<Rightarrow> (None, cl)
                | Some b \<Rightarrow>
                    (None, cl\<lparr>net_calls := net_calls cl @
                       [SendMessage from' PROOF_FOUND (TextPayload (serialize b))]\<rparr>))
           | _ \<Rightarrow> (None, cl)))"

text \<open>
  The loop of \<open>setLastConfirmed\<close>: it follows the parent links while the chain length
  is above the height. \<open>None\<close> is a walk that is not over when the fuel is.
\<close>

fun walk_back :: "nat \<Rightarrow> (string \<times> block) list \<Rightarrow> int \<Rightarrow> block \<Rightarrow> (js_error + block) option" where
  "walk_back 0 bs confirmedBlockHeight b = None"
| "walk_back (Suc n) bs confirmedBlockHeight b =
     (if chainLength b > confirmedBlockHeight then
        (case Map_get bs (prevBlockHash b) of
           None \<Rightarrow> Some (Inl TypeError)
         | Some p \<Rightarrow> walk_back n bs confirmedBlockHeight p)
      else Some (Inr b))"

definition setLastConfirmed ::
  "nat \<Rightarrow> 'a client_scheme \<Rightarrow> (js_error option \<times> 'a client_scheme) option" where
  "setLastConfirmed n cl =
     (case lastBlock cl of
        None \<Rightarrow> Some (Some TypeError, cl)
      | Some b \<Rightarrow>
          let confirmedBlockHeight =
                (if chainLength b - CONFIRMED_DEPTH < 0 then 0 else chainLength b - CONFIRMED_DEPTH)
          in case walk_back n (blocks cl) confirmedBlockHeight b of
               None \<Rightarrow> None
             | Some (Inl e) \<Rightarrow> Some (Some e, cl)
             | Some (Inr a) \<Rightarrow> Some (None, cl\<lparr>lastConfirmedBlock := Some a\<rparr>))"

text \<open>
  A block whose parent is not stored waits in \<open>pendingBlocks\<close> under the parent's id;
  the first to wait for a parent has the parent requested. The set of the blocks that
  wait is the list of them in the order they were added.
\<close>

definition queue_pending :: "'a client_scheme \<Rightarrow> block \<Rightarrow> 'a client_scheme" where
  "queue_pending cl b =
     (case Map_get (pendingBlocks cl) (prevBlockHash b) of
        None \<Rightarrow>
          (let cl1 = requestMissingBlock cl b
           in cl1\<lparr>pendingBlocks := Map_set (pendingBlocks cl1) (prevBlockHash b) [b]\<rparr>)
      | Some stuckBlocks \<Rightarrow>
          cl\<lparr>pendingBlocks := Map_set (pendingBlocks cl) (prevBlockHash b) (stuckBlocks @ [b])\<rparr>)"

text \<open>Storing a block that was rerun, and the choice of the last block.\<close>

definition store_block ::
  "crypto \<Rightarrow> nat \<Rightarrow> 'a client_scheme \<Rightarrow> block \<Rightarrow> (js_error option \<times> 'a client_scheme) option" where
  "store_block c n cl b =
     (let cl1 = cl\<lparr>blocks := Map_set (blocks cl) (block_id c b) b\<rparr> in
      case lastBlock cl1 of
        None \<Rightarrow> Some (Some TypeError, cl1)
      | Some lb \<Rightarrow>
          if chainLength lb < chainLength b then setLastConfirmed n (cl1\<lparr>lastBlock := Some b\<rparr>)
          else Some (None, cl1))"

text \<open>
  \<open>receiveBlock\<close> of a block. The call it makes on itself for each block that waited is
  a call of the method of the object: in a miner the override, which is this function
  followed by \<open>after\<close> when a block is returned; in a client \<open>after\<close> does nothing.
\<close>

fun Client_receiveBlock ::
    "(block \<Rightarrow> heap \<Rightarrow> 'a client_scheme \<Rightarrow> heap \<times> 'a client_scheme) \<Rightarrow> crypto \<Rightarrow> nat \<Rightarrow> heap \<Rightarrow>
     'a client_scheme \<Rightarrow> block \<Rightarrow> ((js_error + block option) \<times> heap \<times> 'a client_scheme) option"
  and receive_unstuck ::
    "(block \<Rightarrow> heap \<Rightarrow> 'a client_scheme \<Rightarrow> heap \<times> 'a client_scheme) \<Rightarrow> crypto \<Rightarrow> nat \<Rightarrow> heap \<Rightarrow>
     'a client_scheme \<Rightarrow> block list \<Rightarrow> (js_error option \<times> heap \<times> 'a client_scheme) option"
where
  "Client_receiveBlock after c 0 h cl b = None"
| "Client_receiveBlock after c (Suc n) h cl b =
     (if Map_has (blocks cl) (block_id c b) then Some (Inr None, h, cl)
      else if \<not> hasValidProof c b then Some (Inr None, h, cl)
      else
        case Map_get (blocks cl) (prevBlockHash b) of
          None \<Rightarrow> Some (Inr None, h, queue_pending cl b)
        | Some prevBlock \<Rightarrow>
            (case rerun c h b prevBlock of
               (success, h1, b1) \<Rightarrow>
                 if \<not> success then Some (Inr None, h1, cl)
                 else
                   (case store_block c n cl b1 of
                      None \<Rightarrow> None
                    | Some (Some e, cl2) \<Rightarrow> Some (Inl e, h1, cl2)
                    | Some (None, cl2) \<Rightarrow>
                        (case receive_unstuck after c n h1
                                (cl2\<lparr>pendingBlocks := Map_delete (pendingBlocks cl2) (block_id c b1)\<rparr>)
                                (case Map_get (pendingBlocks cl2) (block_id c b1) of
                                   None \<Rightarrow> [] | Some unstuckBlocks \<Rightarrow> unstuckBlocks) of
                           None \<Rightarrow> None
                         | Some (Some e, h2, cl3) \<Rightarrow> Some (Inl e, h2, cl3)
                         | Some (None, h2, cl3) \<Rightarrow> Some (Inr (Some b1), h2, cl3)))))"
| "receive_unstuck after c n h cl [] = Some (None, h, cl)"
| "receive_unstuck after c n h cl (b # bs) =
     (case Client_receiveBlock after c n h cl b of
        None \<Rightarrow> None
      | Some (Inl e, h1, cl1) \<Rightarrow> Some (Some e, h1, cl1)
      | Some (Inr None, h1, cl1) \<Rightarrow> receive_unstuck after c n h1 cl1 bs
      | Some (Inr (Some accepted), h1, cl1) \<Rightarrow>
          (case after accepted h1 cl1 of (h2, cl2) \<Rightarrow> receive_unstuck after c n h2 cl2 bs))"

definition no_override :: "block \<Rightarrow> heap \<Rightarrow> 'a client_scheme \<Rightarrow> heap \<times> 'a client_scheme" where
  "no_override b h cl = (h, cl)"

text \<open>\<open>receiveBlock\<close> of a serialized block; \<open>now\<close> is the clock read by the constructor.\<close>

definition Client_receiveBlock_text ::
    "(block \<Rightarrow> heap \<Rightarrow> 'a client_scheme \<Rightarrow> heap \<times> 'a client_scheme) \<Rightarrow> crypto \<Rightarrow> nat \<Rightarrow> int \<Rightarrow> heap \<Rightarrow>
     'a client_scheme \<Rightarrow> string \<Rightarrow> ((js_error + block option) \<times> heap \<times> 'a client_scheme) option" where
  "Client_receiveBlock_text after c n now h cl str =
     (case deserialize c h now str of
        None \<Rightarrow> Some (Inl SyntaxError, h, cl)
      | Some (h1, b) \<Rightarrow> Client_receiveBlock after c n h1 cl b)"

section \<open>Miner\<close>

record miner = client +
  miningRounds :: int
  currentBlock :: block
  scheduled :: nat

definition NUM_ROUNDS_MINING :: int where
  "NUM_ROUNDS_MINING = 2000"

definition startNewSearch :: "crypto \<Rightarrow> int \<Rightarrow> heap \<Rightarrow> miner \<Rightarrow> heap \<times> miner" where
  "startNewSearch c now h m =
     (case new_Block c h now (client_address m) (lastBlock m) HIT_POW_TARGET COINBASE_AMT_ALLOWED of
        (h1, b) \<Rightarrow> (h1, m\<lparr>currentBlock := b\<lparr>blk_proof := Some 0\<rparr>\<rparr>))"

definition new_Miner :: "crypto \<Rightarrow> int \<Rightarrow> heap \<Rightarrow> keypair \<Rightarrow> block option \<Rightarrow> int \<Rightarrow> heap \<times> miner" where
  "new_Miner c now h kp startingBlock rounds =
     (let cl = new_Client c kp startingBlock in
      case new_Block c h now (client_address cl) (lastBlock cl) HIT_POW_TARGET COINBASE_AMT_ALLOWED of
        (h1, b) \<Rightarrow>
          (h1, client.extend cl
                 \<lparr> miningRounds = rounds, currentBlock = b\<lparr>blk_proof := Some 0\<rparr>, scheduled = 0 \<rparr>))"

definition announceProof :: "miner \<Rightarrow> miner" where
  "announceProof m =
     m\<lparr>net_calls := net_calls m @ [Broadcast PROOF_FOUND (TextPayload (serialize (currentBlock m)))]\<rparr>"

text \<open>The part of the override of \<open>receiveBlock\<close> that follows the base behaviour.\<close>

definition cut_over :: "crypto \<Rightarrow> int \<Rightarrow> block \<Rightarrow> heap \<Rightarrow> miner \<Rightarrow> heap \<times> miner" where
  "cut_over c now b h m =
     (if chainLength b > chainLength (currentBlock m) then startNewSearch c now h m else (h, m))"

definition Miner_receiveBlock ::
  "crypto \<Rightarrow> nat \<Rightarrow> int \<Rightarrow> heap \<Rightarrow> miner \<Rightarrow> block \<Rightarrow> ((js_error + block option) \<times> heap \<times> miner) option" where
  "Miner_receiveBlock c n now h m s =
     (case Client_receiveBlock (cut_over c now) c n h m s of
        None \<Rightarrow> None
      | Some (Inl e, h1, m1) \<Rightarrow> Some (Inl e, h1, m1)
      | Some (Inr None, h1, m1) \<Rightarrow> Some (Inr None, h1, m1)
      | Some (Inr (Some b), h1, m1) \<Rightarrow>
          (case cut_over c now b h1 m1 of (h2, m2) \<Rightarrow> Some (Inr None, h2, m2)))"

definition Miner_addTransaction :: "crypto \<Rightarrow> heap \<Rightarrow> miner \<Rightarrow> transaction \<Rightarrow> bool \<times> heap \<times> miner" where
  "Miner_addTransaction c h m tx =
     (case addTransaction c h (currentBlock m) tx of
        (success, h1, b) \<Rightarrow> (success, h1, m\<lparr>currentBlock := b\<rparr>))"


text \<open>
  The search loop of \<open>findProof\<close>. A block without a proof number fails the test of
  the loop at once. The block that is received is the current block, which
  \<open>startNewSearch\<close> replaces right after.
\<close>

function findProof_loop ::
  "crypto \<Rightarrow> nat \<Rightarrow> int \<Rightarrow> int \<Rightarrow> heap \<Rightarrow> miner \<Rightarrow> (js_error option \<times> heap \<times> miner) option" where
  "findProof_loop c n now pausePoint h m =
     (case blk_proof (currentBlock m) of
        None \<Rightarrow> Some (None, h, m)
      | Some p \<Rightarrow>
          if p < pausePoint then
            (if hasValidProof c (currentBlock m) then
               (case Miner_receiveBlock c n now h (announceProof m) (currentBlock m) of
                  None \<Rightarrow> None
                | Some (Inl e, h1, m1) \<Rightarrow> Some (Some e, h1, m1)
                | Some (Inr r, h1, m1) \<Rightarrow>
                    (case startNewSearch c now h1 m1 of (h2, m2) \<Rightarrow> Some (None, h2, m2)))
             else
               findProof_loop c n now pausePoint h
                 (m\<lparr>currentBlock := (currentBlock m)\<lparr>blk_proof := Some (p + 1)\<rparr>\<rparr>))
          else Some (None, h, m))"
  by pat_completeness auto
termination
  by (relation "measure (\<lambda>(c, n, now, pausePoint, h, m).
        nat (pausePoint - (case blk_proof (currentBlock m) of None \<Rightarrow> pausePoint | Some p \<Rightarrow> p)))")
    auto

declare findProof_loop.simps [simp del]

definition findProof ::
  "crypto \<Rightarrow> nat \<Rightarrow> int \<Rightarrow> heap \<Rightarrow> miner \<Rightarrow> bool \<Rightarrow> (js_error option \<times> heap \<times> miner) option" where
  "findProof c n now h m oneAndDone =
     (case (case blk_proof (currentBlock m) of
              None \<Rightarrow> Some (None, h, m)
            | Some p \<Rightarrow> findProof_loop c n now (p + miningRounds m) h m) of
        None \<Rightarrow> None
      | Some (Some e, h1, m1) \<Rightarrow> Some (Some e, h1, m1)
      | Some (None, h1, m1) \<Rightarrow>
          Some (None, h1, if oneAndDone then m1 else m1\<lparr>scheduled := Suc (scheduled m1)\<rparr>))"

definition initialize ::
  "crypto \<Rightarrow> nat \<Rightarrow> int \<Rightarrow> heap \<Rightarrow> miner \<Rightarrow> (js_error option \<times> heap \<times> miner) option" where
  "initialize c n now h m =
     (case startNewSearch c now h m of (h1, m1) \<Rightarrow> findProof c n now h1 m1 False)"

section \<open>Operations of a node\<close>

datatype client_op =
    PostTransaction "tx_output list" int
  | ReceiveBlock block
  | ReceiveText string
  | ProvideMissingBlock string
  | SetGenesisBlock block

datatype miner_op =
    ClientOp client_op
  | Initialize
  | StartNewSearch
  | FindProof bool
  | AnnounceProof
  | MinerAddTransaction transaction

text \<open>
  One operation on a client, with the fuel and the clock of the call; the state is the
  one the operation leaves, also when it throws.
\<close>

definition run_client_op ::
  "crypto \<Rightarrow> nat \<Rightarrow> int \<Rightarrow> heap \<times> client \<Rightarrow> client_op \<Rightarrow> (heap \<times> client) option" where
  "run_client_op c n now st op =
     (case st of (h, cl) \<Rightarrow>
        (case op of
           PostTransaction outs fee' \<Rightarrow> Some (h, snd (postTransaction c h cl outs fee'))
         | ReceiveBlock b \<Rightarrow> map_option snd (Client_receiveBlock no_override c n h cl b)
         | ReceiveText str \<Rightarrow> map_option snd (Client_receiveBlock_text no_override c n now h cl str)
         | ProvideMissingBlock msg \<Rightarrow> Some (h, snd (provideMissingBlock cl msg))
         | SetGenesisBlock b \<Rightarrow> Some (h, snd (setGenesisBlock c cl b))))"

definition Miner_receiveBlock_text ::
  "crypto \<Rightarrow> nat \<Rightarrow> int \<Rightarrow> heap \<Rightarrow> miner \<Rightarrow> string \<Rightarrow> ((js_error + block option) \<times> heap \<times> miner) option" where
  "Miner_receiveBlock_text c n now h m str =
     (case deserialize c h now str of
        None \<Rightarrow> Some (Inl SyntaxError, h, m)
      | Some (h1, b) \<Rightarrow> Miner_receiveBlock c n now h1 m b)"

definition run_miner_op ::
  "crypto \<Rightarrow> nat \<Rightarrow> int \<Rightarrow> heap \<times> miner \<Rightarrow> miner_op \<Rightarrow> (heap \<times> miner) option" where
  "run_miner_op c n now st op =
     (case st of (h, m) \<Rightarrow>
        (case op of
           ClientOp (PostTransaction outs fee') \<Rightarrow> Some (h, snd (postTransaction c h m outs fee'))
         | ClientOp (ReceiveBlock b) \<Rightarrow> map_option snd (Miner_receiveBlock c n now h m b)
         | ClientOp (ReceiveText str) \<Rightarrow> map_option snd (Miner_receiveBlock_text c n now h m str)
         | ClientOp (ProvideMissingBlock msg) \<Rightarrow> Some (h, snd (provideMissingBlock m msg))
         | ClientOp (SetGenesisBlock b) \<Rightarrow> Some (h, snd (setGenesisBlock c m b))
         | Initialize \<Rightarrow> map_option snd (initialize c n now h m)
         | StartNewSearch \<Rightarrow> Some (startNewSearch c now h m)
         | FindProof oneAndDone \<Rightarrow> map_option snd (findProof c n now h m oneAndDone)
         | AnnounceProof \<Rightarrow> Some (h, announceProof m)
         | MinerAddTransaction tx \<Rightarrow> Some (snd (Miner_addTransaction c h m tx))))"

text \<open>A run: each operation has its own fuel and clock.\<close>

fun run_client :: "crypto \<Rightarrow> heap \<times> client \<Rightarrow> (nat \<times> int \<times> client_op) list \<Rightarrow> (heap \<times> client) option" where
  "run_client c st [] = Some st"
| "run_client c st ((n, now, op) # ops) =
     (case run_client_op c n now st op of None \<Rightarrow> None | Some st' \<Rightarrow> run_client c st' ops)"

fun run_miner :: "crypto \<Rightarrow> heap \<times> miner \<Rightarrow> (nat \<times> int \<times> miner_op) list \<Rightarrow> (heap \<times> miner) option" where
  "run_miner c st [] = Some st"
| "run_miner c st ((n, now, op) # ops) =
     (case run_miner_op c n now st op of None \<Rightarrow> None | Some st' \<Rightarrow> run_miner c st' ops)"

section \<open>Chains of blocks\<close>





text \<open>What \<open>addTransaction\<close> reads and writes of a block.\<close>

definition same_derived_state :: "block \<Rightarrow> block \<Rightarrow> bool" where
  "same_derived_state b f =
     (balances b = balances f \<and> nextNonce b = nextNonce f \<and> transactions b = transactions f)"

section \<open>Texts that delimit a value\<close>



section \<open>Well-formed nodes\<close>












section \<open>An instance of the primitives\<close>

text \<open>
  A small instance on which the definitions run: the digest of a string is its length, a
  signature is the key followed by the message. The balances are those of the test suite.
\<close>

definition demo_crypto :: crypto where
  "demo_crypto = \<lparr> sha256 = (\<lambda>s. of_nat (length s)),
                    rsa_sign = (\<lambda>k m. k @ m),
                    rsa_verify = (\<lambda>k m sg. sg = k @ m) \<rparr>"

definition demo_addr :: string where
  "demo_addr = calcAddress demo_crypto ''K''"

definition demo_unsigned_tx :: transaction where
  "demo_unsigned_tx =
     \<lparr> tx_from = demo_addr, tx_nonce = 0, pubKey = ''K'', sig = None, fee = 1,
       outputs = [\<lparr>amount = 20, address = ''ffff''\<rparr>, \<lparr>amount = 40, address = ''face''\<rparr>] \<rparr>"

definition demo_tx :: transaction where
  "demo_tx = tx_sign demo_crypto ''K'' demo_unsigned_tx"

definition empty_heap :: heap where
  "empty_heap = \<lparr> cells = (\<lambda>r. []), next_ref = 0 \<rparr>"

definition demo_heap :: heap where
  "demo_heap = \<lparr> cells = ((\<lambda>r. [])(0 := [(demo_addr, 500), (''ffff'', 100), (''face'', 99)])),
                 next_ref = 2 \<rparr>"

definition demo_prev :: block where
  "demo_prev = \<lparr> prevBlockHash = [], target = HIT_POW_TARGET, balances = 0, nextNonce = 1,
                  transactions = [], chainLength = 0, timestamp = 1000, rewardAddr = ''8e7912'',
                  coinbaseReward = 25, blk_proof = None \<rparr>"


definition demo_keys :: keypair where
  "demo_keys = \<lparr> kp_public = ''K'', kp_private = ''K'' \<rparr>"

definition demo_client :: client where
  "demo_client = new_Client demo_crypto demo_keys (Some demo_prev)"





section \<open>Properties of Transaction\<close>

lemma stringify_outputs_members:
  "JSON_stringify (output_json out) =
     ''{'' @ quote ''amount'' @ '':'' @ show_int (amount out) @ '','' @
     quote ''address'' @ '':'' @ quote (address out) @ ''}''"
  by (simp add: output_json_def)

text \<open>
  C7. The id of a transaction is the hash of \<open>TX\<close> followed by the JSON text of the
  object with exactly the members from, nonce, pubKey, outputs and fee, in this order;
  the signature is no part of it, so signing a transaction, or giving it any other
  signature, leaves the id as it is.
\<close>

theorem tx_id_excludes_sig:
  "tx_id c t =
     hash c (''TX'' @ ''{'' @
       quote ''from'' @ '':'' @ quote (tx_from t) @ '','' @
       quote ''nonce'' @ '':'' @ show_int (tx_nonce t) @ '','' @
       quote ''pubKey'' @ '':'' @ quote (pubKey t) @ '','' @
       quote ''outputs'' @ '':'' @ ''['' @ stringify_elements (map output_json (outputs t)) @ '']'' @ '','' @
       quote ''fee'' @ '':'' @ show_int (fee t) @ ''}'') Hex
   \<and> tx_id c (tx_sign c privKey t) = tx_id c t
   \<and> tx_id c (t\<lparr>sig := s\<rparr>) = tx_id c t"
  by (simp add: tx_id_def tx_sign_def)





section \<open>Proof of work\<close>

lemma hex_value_hex_char: "d < 16 \<Longrightarrow> hex_value (hex_char d) = Some d"
  by (auto simp: hex_value_def hex_char_def Let_def)

lemma BigInteger16_acc_snoc:
  "BigInteger16_acc acc (xs @ [ch]) =
     (case BigInteger16_acc acc xs of
        None \<Rightarrow> None
      | Some a \<Rightarrow> (case hex_value ch of None \<Rightarrow> None | Some d \<Rightarrow> Some (a * 16 + d)))"
  by (induction xs arbitrary: acc) (auto split: option.splits)

lemma BigInteger16_acc_hex_digits: "BigInteger16_acc 0 (hex_digits k n) = Some (n mod 16 ^ k)"
proof (induction k arbitrary: n)
  case 0
  then show ?case by simp
next
  case (Suc k)
  have "n mod (16 * 16 ^ k) = 16 * (n div 16 mod 16 ^ k) + n mod 16"
    by (rule mod_mult2_eq)
  then show ?case
    by (simp add: BigInteger16_acc_snoc Suc.IH hex_value_hex_char)
qed

lemma BigInteger16_digest: "BigInteger16 (digest w Hex) = Some (uint w)"
proof -
  have "unat w < 2 ^ 256"
    using unsigned_less [of w] by simp
  then have "unat w mod 16 ^ 64 = unat w"
    by simp
  then show ?thesis
    by (simp add: BigInteger16_def digest_def BigInteger16_acc_hex_digits)
qed

text \<open>
  C8. \<open>hasValidProof\<close> is true exactly when the SHA-256 digest of the serialized block,
  read as an unsigned 256-bit integer, is strictly less than the target of the block.
\<close>

theorem hasValidProof_iff:
  "hasValidProof c b = (uint (sha256 c (serialize b)) < target b)
   \<and> 0 \<le> uint (sha256 c (serialize b)) \<and> uint (sha256 c (serialize b)) < 2 ^ 256"
proof -
  have "uint (sha256 c (serialize b)) < 2 ^ 256"
    using uint_bounded [of "sha256 c (serialize b)"] by simp
  then show ?thesis
    by (simp add: hasValidProof_def hash_def BigInteger16_digest)
qed

section \<open>The heap of a block\<close>


lemma cells_heap_set: "cells (heap_set h r k v) r' = (if r' = r then Map_set (cells h r) k v else cells h r')"
  by (simp add: heap_set_def)

lemma next_ref_heap_set: "next_ref (heap_set h r k v) = next_ref h"
  by (simp add: heap_set_def)

lemma credit_outputs_next_ref:
  "next_ref (foldl (\<lambda>hh out. heap_set hh r (address out) (amount out + balanceOf hh b (address out))) h outs)
     = next_ref h"
  by (induction outs arbitrary: h) (simp_all add: next_ref_heap_set)

lemma credit_outputs_frame:
  "r' \<noteq> r \<Longrightarrow>
   cells (foldl (\<lambda>hh out. heap_set hh r (address out) (amount out + balanceOf hh b (address out))) h outs) r'
     = cells h r'"
  by (induction outs arbitrary: h) (simp_all add: cells_heap_set)

lemma addTransaction_refs:
  assumes "addTransaction c h b tx = (ok, h', b')"
  shows "balances b' = balances b" and "nextNonce b' = nextNonce b" and "next_ref h' = next_ref h"
  using assms
  by (auto simp: addTransaction_def Let_def credit_outputs_next_ref next_ref_heap_set split: if_splits)

lemma addTransaction_frame:
  assumes "addTransaction c h b tx = (ok, h', b')" and "r \<noteq> balances b" and "r \<noteq> nextNonce b"
  shows "cells h' r = cells h r"
  using assms
  by (auto simp: addTransaction_def Let_def credit_outputs_frame cells_heap_set split: if_splits)

lemma readd_refs:
  assumes "readd c h b txs = (ok, h', b')"
  shows "balances b' = balances b \<and> nextNonce b' = nextNonce b \<and> next_ref h' = next_ref h"
  using assms
proof (induction txs arbitrary: h b)
  case Nil
  then show ?case by simp
next
  case (Cons tx txs)
  obtain ok1 h1 b1 where step: "addTransaction c h b tx = (ok1, h1, b1)"
    by (cases "addTransaction c h b tx") auto
  show ?case
  proof (cases ok1)
    case True
    with Cons.prems step have "readd c h1 b1 txs = (ok, h', b')" by simp
    from Cons.IH [OF this] addTransaction_refs [OF step] show ?thesis by simp
  next
    case False
    with Cons.prems step have "h' = h1" "b' = b1" by simp_all
    with addTransaction_refs [OF step] show ?thesis by simp
  qed
qed

lemma readd_frame:
  assumes "readd c h b txs = (ok, h', b')" and "r \<noteq> balances b" and "r \<noteq> nextNonce b"
  shows "cells h' r = cells h r"
  using assms
proof (induction txs arbitrary: h b)
  case Nil
  then show ?case by simp
next
  case (Cons tx txs)
  obtain ok1 h1 b1 where step: "addTransaction c h b tx = (ok1, h1, b1)"
    by (cases "addTransaction c h b tx") auto
  have fr: "cells h1 r = cells h r"
    using addTransaction_frame [OF step Cons.prems(2,3)] .
  show ?case
  proof (cases ok1)
    case True
    with Cons.prems step have "readd c h1 b1 txs = (ok, h', b')" by simp
    from Cons.IH [OF this] Cons.prems(2,3) addTransaction_refs [OF step] fr show ?thesis by simp
  next
    case False
    with Cons.prems step have "h' = h1" by simp
    with fr show ?thesis by simp
  qed
qed

text \<open>
  C9. \<open>rerun\<close> writes only the two maps it allocates: every map allocated before the
  call, those of the previous block among them, holds after the call what it held before,
  and the block that was rerun shares no map with the previous block.
\<close>

theorem rerun_leaves_parent_unchanged:
  assumes "rerun c h b p = (ok, h', b')"
    and "balances p < next_ref h" and "nextNonce p < next_ref h"
  shows "cells h' (balances p) = cells h (balances p)
       \<and> cells h' (nextNonce p) = cells h (nextNonce p)
       \<and> balances b' \<noteq> balances p \<and> balances b' \<noteq> nextNonce p
       \<and> nextNonce b' \<noteq> balances p \<and> nextNonce b' \<noteq> nextNonce p
       \<and> (\<forall>r. r < next_ref h \<longrightarrow> cells h' r = cells h r)"
proof -
  define h1 where "h1 = fst (new_Map h (cells h (balances p)))"
  define h2 where "h2 = fst (new_Map h1 (cells h1 (nextNonce p)))"
  define rb where "rb = next_ref h"
  define rn where "rn = Suc (next_ref h)"
  define b1 where "b1 = b\<lparr>balances := rb, nextNonce := rn\<rparr>"
  define h3 where "h3 = heap_set h2 rb (rewardAddr p) (balanceOf h2 b1 (rewardAddr p) + totalRewards p)"
  define b2 where "b2 = b1\<lparr>transactions := []\<rparr>"
  have run: "readd c h3 b2 (Map_values (transactions b)) = (ok, h', b')"
    using assms(1)
    by (simp add: rerun_def new_Map_def Let_def h1_def h2_def rb_def rn_def b1_def h3_def b2_def)
  have refs: "balances b2 = rb" "nextNonce b2 = rn"
    by (simp_all add: b2_def b1_def)
  have old: "cells h3 r = cells h r" if "r < next_ref h" for r
    using that by (simp add: h3_def h2_def h1_def new_Map_def cells_heap_set rb_def)
  have frame: "cells h' r = cells h r" if "r < next_ref h" for r
  proof -
    from that have "r \<noteq> balances b2" "r \<noteq> nextNonce b2"
      by (simp_all add: refs rb_def rn_def)
    from readd_frame [OF run this] old [OF that] show ?thesis by simp
  qed
  have new: "balances b' = rb" "nextNonce b' = rn"
    using readd_refs [OF run] refs by simp_all
  show ?thesis
    using frame assms(2,3) new by (auto simp: rb_def rn_def)
qed


theorem rerun_leaves_parent_unchanged_witness:
  "balances demo_prev < next_ref demo_heap \<and> nextNonce demo_prev < next_ref demo_heap
   \<and> cells (fst (snd (rerun demo_crypto demo_heap (demo_prev\<lparr>transactions := [(''id'', demo_tx)]\<rparr>) demo_prev)))
        (balances demo_prev)
      = [(demo_addr, 500), (''ffff'', 100), (''face'', 99)]"
proof -
  let ?r = "rerun demo_crypto demo_heap (demo_prev\<lparr>transactions := [(''id'', demo_tx)]\<rparr>) demo_prev"
  have a: "balances demo_prev < next_ref demo_heap" and b: "nextNonce demo_prev < next_ref demo_heap"
    by (simp_all add: demo_heap_def demo_prev_def)
  have r: "?r = (fst ?r, fst (snd ?r), snd (snd ?r))"
    by simp
  have "cells demo_heap (balances demo_prev) = [(demo_addr, 500), (''ffff'', 100), (''face'', 99)]"
    by (simp add: demo_heap_def demo_prev_def)
  with rerun_leaves_parent_unchanged [OF r a b] a b show ?thesis by simp
qed

section \<open>Replay prevention\<close>


lemma credit_outputs_cells:
  "r' \<noteq> r \<Longrightarrow>
   Map_get (cells (foldl (\<lambda>hh out. heap_set hh r (address out) (amount out + balanceOf hh b (address out))) h outs) r') s
     = Map_get (cells h r') s"
  by (simp add: credit_outputs_frame)







section \<open>Rerun and construction\<close>

lemma addTransaction_same_derived_state:
  assumes "same_derived_state b f"
  shows "fst (addTransaction c h b tx) = fst (addTransaction c h f tx)
       \<and> fst (snd (addTransaction c h b tx)) = fst (snd (addTransaction c h f tx))
       \<and> same_derived_state (snd (snd (addTransaction c h b tx))) (snd (snd (addTransaction c h f tx)))"
  using assms by (simp add: same_derived_state_def addTransaction_def balanceOf_def Let_def)

lemma readd_same_derived_state:
  assumes "same_derived_state b f"
  shows "fst (readd c h b txs) = fst (readd c h f txs)
       \<and> fst (snd (readd c h b txs)) = fst (snd (readd c h f txs))
       \<and> same_derived_state (snd (snd (readd c h b txs))) (snd (snd (readd c h f txs)))"
  using assms
proof (induction txs arbitrary: h b f)
  case Nil
  then show ?case by simp
next
  case (Cons tx txs)
  note step = addTransaction_same_derived_state [OF Cons.prems, of c h tx]
  obtain ok h1 b1 where b: "addTransaction c h b tx = (ok, h1, b1)"
    by (cases "addTransaction c h b tx") auto
  obtain ok' h1' f1 where f: "addTransaction c h f tx = (ok', h1', f1)"
    by (cases "addTransaction c h f tx") auto
  from step b f have eq: "ok' = ok" "h1' = h1" "same_derived_state b1 f1"
    by simp_all
  show ?case
    using Cons.IH [OF eq(3), of h1] b f eq by simp
qed

lemma rerun_matches_construction:
  assumes "rewardAddr p \<noteq> []"
    and "new_Block c h now addr (Some p) tg reward = (h1, f)"
  shows "fst (rerun c h b p) = fst (readd c h1 f (Map_values (transactions b)))
       \<and> fst (snd (rerun c h b p)) = fst (snd (readd c h1 f (Map_values (transactions b))))
       \<and> same_derived_state (snd (snd (rerun c h b p)))
            (snd (snd (readd c h1 f (Map_values (transactions b)))))"
proof -
  define h3 where "h3 = heap_set (fst (new_Map (fst (new_Map h (cells h (balances p))))
        (cells (fst (new_Map h (cells h (balances p)))) (nextNonce p))))
      (next_ref h) (rewardAddr p)
      (balanceOf (fst (new_Map (fst (new_Map h (cells h (balances p))))
        (cells (fst (new_Map h (cells h (balances p)))) (nextNonce p))))
        (b\<lparr>balances := next_ref h, nextNonce := Suc (next_ref h)\<rparr>) (rewardAddr p) + totalRewards p)"
  define b2 where "b2 = b\<lparr>balances := next_ref h, nextNonce := Suc (next_ref h), transactions := []\<rparr>"
  have r: "rerun c h b p = readd c h3 b2 (Map_values (transactions b))"
    by (simp add: rerun_def new_Map_def Let_def h3_def b2_def)
  have h1: "h1 = h3" and f: "same_derived_state b2 f"
    using assms
    by (auto simp: new_Block_def new_Map_def Let_def h3_def b2_def balanceOf_def same_derived_state_def)
  show ?thesis
    unfolding r h1 using readd_same_derived_state [OF f] by simp
qed

text \<open>
  C1. Atop a block with the empty reward address (the genesis block) the constructor
  credits nothing, while \<open>rerun\<close> credits the reward of the previous block to the empty
  address: the balances of a block differ from those of its rerun.
\<close>

theorem rerun_credits_empty_reward_address:
  "(let (h1, g) = new_Block c empty_heap 1000 GENESIS_REWARD_ADDR None HIT_POW_TARGET COINBASE_AMT_ALLOWED;
        (h2, b) = new_Block c h1 2000 ''8e7912'' (Some g) HIT_POW_TARGET COINBASE_AMT_ALLOWED;
        (ok, h3, b') = rerun c h2 b g
    in (cells h2 (balances b), ok, cells h3 (balances b'))) = ([], True, [([], 25)])"
  by (simp add: new_Block_def new_Map_def rerun_def Let_def empty_heap_def GENESIS_REWARD_ADDR_def
      COINBASE_AMT_ALLOWED_def heap_set_def balanceOf_def totalRewards_def Map_get_def Map_values_def)

section \<open>Parsing what \<open>JSON.stringify\<close> prints\<close>


lemma hex_value_zero: "hex_value CHR ''0'' = Some 0"
  by (simp add: hex_value_def)

lemma parse_chars_escape_char:
  "parse_chars (escape_char ch @ s) = map_option (\<lambda>(str, r). (ch # str, r)) (parse_chars s)"
proof -
  consider (quote) "ch = CHR 0x22" | (backslash) "ch = CHR 0x5C"
    | (short) "ch \<in> {CHR 0x08, CHR 0x09, CHR 0x0A, CHR 0x0C, CHR 0x0D}"
    | (control) "ch \<notin> {CHR 0x08, CHR 0x09, CHR 0x0A, CHR 0x0C, CHR 0x0D}" "(of_char ch :: nat) < 32"
    | (plain) "ch \<noteq> CHR 0x22" "ch \<noteq> CHR 0x5C" "\<not> (of_char ch :: nat) < 32"
    by blast
  then show ?thesis
  proof cases
    case quote
    then show ?thesis by (simp add: escape_char_def unescape_def)
  next
    case backslash
    then show ?thesis by (simp add: escape_char_def unescape_def)
  next
    case short
    then show ?thesis by (auto simp: escape_char_def unescape_def)
  next
    case control
    let ?n = "of_char ch :: nat"
    have ne: "ch \<noteq> CHR 0x22" "ch \<noteq> CHR 0x5C"
      using control(2) by auto
    have "?n div 16 < 16" "?n mod 16 < 16"
      using control(2) by simp_all
    then have "hex4 CHR ''0'' CHR ''0'' (hex_char (?n div 16)) (hex_char (?n mod 16)) = Some ?n"
      by (simp add: hex4_def hex_value_zero hex_value_hex_char)
    moreover have "?n < 256"
      using control(2) by simp
    ultimately show ?thesis
      using control ne by (simp add: escape_char_def)
  next
    case plain
    then have "escape_char ch = [ch]"
      by (auto simp: escape_char_def)
    with plain show ?thesis by simp
  qed
qed

lemma parse_chars_quote_body:
  "parse_chars (concat (map escape_char str) @ CHR 0x22 # rest) = Some (str, rest)"
  by (induction str) (simp_all add: parse_chars_escape_char)

















declare parse_value.simps [simp del]









lemma parse_quote: "parse_chars (tl (quote k) @ rest) = Some (k, rest)"
  by (simp add: quote_def parse_chars_quote_body)



section \<open>Serialization round trip\<close>











section \<open>The pending amount of a node\<close>

lemma setGenesisBlock_pendingSpent: "pendingSpent (snd (setGenesisBlock c cl b)) = pendingSpent cl"
  by (simp add: setGenesisBlock_def)

lemma postTransaction_pendingSpent: "pendingSpent (snd (postTransaction c h cl outs f)) = pendingSpent cl"
  by (simp add: postTransaction_def Let_def split: option.splits)

lemma provideMissingBlock_pendingSpent: "pendingSpent (snd (provideMissingBlock cl msg)) = pendingSpent cl"
  by (simp add: provideMissingBlock_def split: option.splits json.splits)

lemma queue_pending_pendingSpent: "pendingSpent (queue_pending cl b) = pendingSpent cl"
  by (simp add: queue_pending_def requestMissingBlock_def Let_def split: option.splits)

lemma setLastConfirmed_pendingSpent:
  "setLastConfirmed n cl = Some (e, cl') \<Longrightarrow> pendingSpent cl' = pendingSpent cl"
  by (auto simp: setLastConfirmed_def Let_def split: option.splits sum.splits)

lemma store_block_pendingSpent:
  "store_block c n cl b = Some (e, cl') \<Longrightarrow> pendingSpent cl' = pendingSpent cl"
  by (auto simp: store_block_def Let_def dest: setLastConfirmed_pendingSpent split: option.splits if_splits)

lemma receive_unstuck_pendingSpent:
  assumes after: "\<And>b h cl. pendingSpent (snd (after b h cl)) = pendingSpent cl"
    and one: "\<And>h cl b r h' cl'. Client_receiveBlock after c n h cl b = Some (r, h', cl')
                \<Longrightarrow> pendingSpent cl' = pendingSpent cl"
  shows "receive_unstuck after c n h cl bs = Some (e, h', cl') \<Longrightarrow> pendingSpent cl' = pendingSpent cl"
proof (induction bs arbitrary: h cl)
  case Nil
  then show ?case by simp
next
  case (Cons b bs)
  from Cons.prems obtain r1 h1 cl1 where first: "Client_receiveBlock after c n h cl b = Some (r1, h1, cl1)"
    by (cases "Client_receiveBlock after c n h cl b") auto
  note ps1 = one [OF first]
  show ?case
  proof (cases r1)
    case (Inl e1)
    with Cons.prems first ps1 show ?thesis by auto
  next
    case (Inr ob)
    show ?thesis
    proof (cases ob)
      case None
      with Cons.prems first Inr have "receive_unstuck after c n h1 cl1 bs = Some (e, h', cl')"
        by simp
      from Cons.IH [OF this] ps1 show ?thesis by simp
    next
      case (Some accepted)
      obtain h2 cl2 where aft: "after accepted h1 cl1 = (h2, cl2)"
        by (cases "after accepted h1 cl1")
      with Cons.prems first Inr Some have "receive_unstuck after c n h2 cl2 bs = Some (e, h', cl')"
        by simp
      from Cons.IH [OF this] after [of accepted h1 cl1] aft ps1 show ?thesis by simp
    qed
  qed
qed

lemma receiveBlock_pendingSpent:
  assumes after: "\<And>b h cl. pendingSpent (snd (after b h cl)) = pendingSpent cl"
  shows "Client_receiveBlock after c n h cl b = Some (r, h', cl') \<Longrightarrow> pendingSpent cl' = pendingSpent cl"
proof (induction n arbitrary: h cl b r h' cl')
  case 0
  then show ?case by simp
next
  case (Suc n)
  have unstuck: "pendingSpent cl' = pendingSpent cl"
    if "receive_unstuck after c n h cl bs = Some (e, h', cl')" for h cl bs e h' cl'
  proof (rule receive_unstuck_pendingSpent [where after = after and c = c and n = n])
    show "pendingSpent (snd (after b h cl)) = pendingSpent cl" for b h cl
      by (rule after)
    show "pendingSpent cl' = pendingSpent cl"
      if "Client_receiveBlock after c n h cl b = Some (r, h', cl')" for h cl b r h' cl'
      using that by (rule Suc.IH)
    show "receive_unstuck after c n h cl bs = Some (e, h', cl')"
      by (rule that)
  qed
  show ?case
  proof (cases "Map_has (blocks cl) (block_id c b) \<or> \<not> hasValidProof c b")
    case True
    with Suc.prems show ?thesis by (auto split: if_splits)
  next
    case False
    show ?thesis
    proof (cases "Map_get (blocks cl) (prevBlockHash b)")
      case None
      with Suc.prems False show ?thesis
        by (auto simp: queue_pending_pendingSpent)
    next
      case (Some prevBlock)
      obtain success h1 b1 where rr: "rerun c h b prevBlock = (success, h1, b1)"
        by (cases "rerun c h b prevBlock") auto
      show ?thesis
      proof (cases success)
        case no: False
        with Suc.prems False Some rr show ?thesis by auto
      next
        case True
        show ?thesis
        proof (cases "store_block c n cl b1")
          case None
          with Suc.prems False Some rr True show ?thesis by simp
        next
          case st: (Some res)
          obtain e2 cl2 where res: "res = (e2, cl2)" by (cases res)
          have ps2: "pendingSpent cl2 = pendingSpent cl"
            using store_block_pendingSpent st res by blast
          show ?thesis
          proof (cases e2)
            case err: (Some e)
            with Suc.prems False Some rr True st res ps2 show ?thesis by auto
          next
            case None
            let ?cl3 = "cl2\<lparr>pendingBlocks := Map_delete (pendingBlocks cl2) (block_id c b1)\<rparr>"
            let ?us = "case Map_get (pendingBlocks cl2) (block_id c b1) of None \<Rightarrow> [] | Some u \<Rightarrow> u"
            from Suc.prems False Some rr True st res None
            obtain e3 where "receive_unstuck after c n h1 ?cl3 ?us = Some (e3, h', cl')"
              by (auto split: option.splits)
            from unstuck [OF this] ps2 show ?thesis by simp
          qed
        qed
      qed
    qed
  qed
qed


lemma startNewSearch_pendingSpent: "pendingSpent (snd (startNewSearch c now h m)) = pendingSpent m"
  by (simp add: startNewSearch_def split: prod.splits)

lemma cut_over_pendingSpent: "pendingSpent (snd (cut_over c now b h m)) = pendingSpent m"
  by (simp add: cut_over_def startNewSearch_pendingSpent)

lemma Miner_receiveBlock_pendingSpent:
  assumes "Miner_receiveBlock c n now h m b = Some (r, h', m')"
  shows "pendingSpent m' = pendingSpent m"
proof -
  from assms obtain r1 h1 m1 where base: "Client_receiveBlock (cut_over c now) c n h m b = Some (r1, h1, m1)"
    by (cases "Client_receiveBlock (cut_over c now) c n h m b") (auto simp: Miner_receiveBlock_def)
  have "pendingSpent m1 = pendingSpent m"
    using base by (rule receiveBlock_pendingSpent [rotated]) (rule cut_over_pendingSpent)
  moreover have "pendingSpent m' = pendingSpent m1"
  proof (cases r1)
    case (Inl e)
    with assms base show ?thesis by (simp add: Miner_receiveBlock_def)
  next
    case (Inr ob)
    show ?thesis
    proof (cases ob)
      case None
      with assms base Inr show ?thesis by (simp add: Miner_receiveBlock_def)
    next
      case (Some a)
      with assms base Inr have "cut_over c now a h1 m1 = (h', m')"
        by (simp add: Miner_receiveBlock_def split: prod.splits)
      with cut_over_pendingSpent [of c now a h1 m1] show ?thesis by simp
    qed
  qed
  ultimately show ?thesis by simp
qed

lemma findProof_loop_pendingSpent:
  "findProof_loop c n now pausePoint h m = Some (e, h', m') \<Longrightarrow> pendingSpent m' = pendingSpent m"
proof (induction c n now pausePoint h m rule: findProof_loop.induct)
  case (1 c n now pausePoint h m)
  show ?case
  proof (cases "blk_proof (currentBlock m)")
    case None
    with 1(2) show ?thesis
      by (subst (asm) findProof_loop.simps) simp
  next
    case (Some p)
    show ?thesis
    proof (cases "p < pausePoint")
      case False
      with 1(2) Some show ?thesis
        by (subst (asm) findProof_loop.simps) simp
    next
      case True
      show ?thesis
      proof (cases "hasValidProof c (currentBlock m)")
        case no: False
        with 1(2) Some True
        have "findProof_loop c n now pausePoint h
            (m\<lparr>currentBlock := (currentBlock m)\<lparr>blk_proof := Some (p + 1)\<rparr>\<rparr>) = Some (e, h', m')"
          by (subst (asm) findProof_loop.simps) simp
        from 1(1) [OF Some True no this] show ?thesis by simp
      next
        case yes: True
        from 1(2) Some True yes
        obtain r1 h1 m1 where rb: "Miner_receiveBlock c n now h (announceProof m) (currentBlock m) = Some (r1, h1, m1)"
          by (subst (asm) findProof_loop.simps) (auto split: option.splits)
        have "pendingSpent m1 = pendingSpent m"
          using Miner_receiveBlock_pendingSpent [OF rb] by (simp add: announceProof_def)
        moreover have "pendingSpent m' = pendingSpent m1"
          using 1(2) Some True yes rb startNewSearch_pendingSpent [of c now h1 m1]
          by (subst (asm) findProof_loop.simps) (auto split: sum.splits prod.splits)
        ultimately show ?thesis by simp
      qed
    qed
  qed
qed

lemma findProof_pendingSpent:
  assumes "findProof c n now h m oneAndDone = Some (e, h', m')"
  shows "pendingSpent m' = pendingSpent m"
proof (cases "blk_proof (currentBlock m)")
  case None
  with assms show ?thesis
    by (auto simp: findProof_def split: if_splits)
next
  case (Some p)
  with assms obtain e1 m1 where loop: "findProof_loop c n now (p + miningRounds m) h m = Some (e1, h', m1)"
    and m': "pendingSpent m' = pendingSpent m1"
    by (auto simp: findProof_def split: option.splits if_splits)
  from findProof_loop_pendingSpent [OF loop] m' show ?thesis by simp
qed

lemma initialize_pendingSpent:
  assumes "initialize c n now h m = Some (e, h', m')"
  shows "pendingSpent m' = pendingSpent m"
proof -
  obtain h1 m1 where s: "startNewSearch c now h m = (h1, m1)"
    by (cases "startNewSearch c now h m")
  with assms have "findProof c n now h1 m1 False = Some (e, h', m')"
    by (simp add: initialize_def)
  from findProof_pendingSpent [OF this] startNewSearch_pendingSpent [of c now h m] s
  show ?thesis by simp
qed

lemma Client_receiveBlock_text_pendingSpent:
  assumes "\<And>b h cl. pendingSpent (snd (after b h cl)) = pendingSpent cl"
    and "Client_receiveBlock_text after c n now h cl str = Some (r, h', cl')"
  shows "pendingSpent cl' = pendingSpent cl"
  using assms(2) receiveBlock_pendingSpent [of after, OF assms(1)]
  by (auto simp: Client_receiveBlock_text_def split: option.splits)

lemma run_client_op_pendingSpent:
  assumes "run_client_op c n now (h, cl) op = Some (h', cl')"
  shows "pendingSpent cl' = pendingSpent cl"
proof (cases op)
  case (PostTransaction outs f)
  with assms show ?thesis
    by (auto simp: run_client_op_def postTransaction_pendingSpent)
next
  case (ReceiveBlock b)
  with assms obtain r where "Client_receiveBlock no_override c n h cl b = Some (r, h', cl')"
    by (auto simp: run_client_op_def)
  then show ?thesis
    by (rule receiveBlock_pendingSpent [rotated]) (simp add: no_override_def)
next
  case (ReceiveText str)
  with assms obtain r where "Client_receiveBlock_text no_override c n now h cl str = Some (r, h', cl')"
    by (auto simp: run_client_op_def)
  then show ?thesis
    by (rule Client_receiveBlock_text_pendingSpent [rotated]) (simp add: no_override_def)
next
  case (ProvideMissingBlock msg)
  with assms show ?thesis
    by (auto simp: run_client_op_def provideMissingBlock_pendingSpent)
next
  case (SetGenesisBlock b)
  with assms show ?thesis
    by (auto simp: run_client_op_def setGenesisBlock_pendingSpent)
qed

lemma run_miner_op_pendingSpent:
  assumes "run_miner_op c n now (h, m) op = Some (h', m')"
  shows "pendingSpent m' = pendingSpent m"
proof (cases op)
  case (ClientOp cop)
  show ?thesis
  proof (cases cop)
    case (PostTransaction outs f)
    with assms ClientOp show ?thesis
      by (auto simp: run_miner_op_def postTransaction_pendingSpent)
  next
    case (ReceiveBlock b)
    with assms ClientOp obtain r where "Miner_receiveBlock c n now h m b = Some (r, h', m')"
      by (auto simp: run_miner_op_def)
    then show ?thesis
      by (rule Miner_receiveBlock_pendingSpent)
  next
    case (ReceiveText str)
    with assms ClientOp obtain r where "Miner_receiveBlock_text c n now h m str = Some (r, h', m')"
      by (auto simp: run_miner_op_def)
    then show ?thesis
      by (auto simp: Miner_receiveBlock_text_def dest: Miner_receiveBlock_pendingSpent split: option.splits)
  next
    case (ProvideMissingBlock msg)
    with assms ClientOp show ?thesis
      by (auto simp: run_miner_op_def provideMissingBlock_pendingSpent)
  next
    case (SetGenesisBlock b)
    with assms ClientOp show ?thesis
      by (auto simp: run_miner_op_def setGenesisBlock_pendingSpent)
  qed
next
  case Initialize
  with assms obtain e where "initialize c n now h m = Some (e, h', m')"
    by (auto simp: run_miner_op_def)
  then show ?thesis by (rule initialize_pendingSpent)
next
  case StartNewSearch
  with assms startNewSearch_pendingSpent [of c now h m] show ?thesis
    by (auto simp: run_miner_op_def)
next
  case (FindProof oneAndDone)
  with assms obtain e where "findProof c n now h m oneAndDone = Some (e, h', m')"
    by (auto simp: run_miner_op_def)
  then show ?thesis by (rule findProof_pendingSpent)
next
  case AnnounceProof
  with assms show ?thesis
    by (auto simp: run_miner_op_def announceProof_def)
next
  case (MinerAddTransaction tx)
  with assms show ?thesis
    by (auto simp: run_miner_op_def Miner_addTransaction_def split: prod.splits)
qed

lemma run_client_pendingSpent:
  "run_client c (h, cl) ops = Some (h', cl') \<Longrightarrow> pendingSpent cl' = pendingSpent cl"
proof (induction ops arbitrary: h cl)
  case Nil
  then show ?case by simp
next
  case (Cons x ops)
  obtain n now op where x: "x = (n, now, op)" by (cases x)
  with Cons.prems obtain h1 cl1 where step: "run_client_op c n now (h, cl) op = Some (h1, cl1)"
    and rest: "run_client c (h1, cl1) ops = Some (h', cl')"
    by (cases "run_client_op c n now (h, cl) op") auto
  from Cons.IH [OF rest] run_client_op_pendingSpent [OF step] show ?case by simp
qed

lemma run_miner_pendingSpent:
  "run_miner c (h, m) ops = Some (h', m') \<Longrightarrow> pendingSpent m' = pendingSpent m"
proof (induction ops arbitrary: h m)
  case Nil
  then show ?case by simp
next
  case (Cons x ops)
  obtain n now op where x: "x = (n, now, op)" by (cases x)
  with Cons.prems obtain h1 m1 where step: "run_miner_op c n now (h, m) op = Some (h1, m1)"
    and rest: "run_miner c (h1, m1) ops = Some (h', m')"
    by (cases "run_miner_op c n now (h, m) op") auto
  from Cons.IH [OF rest] run_miner_op_pendingSpent [OF step] show ?case by simp
qed

lemma new_Client_pendingSpent: "pendingSpent (new_Client c kp sb) = 0"
  by (simp add: new_Client_def Let_def setGenesisBlock_def split: option.splits)

lemma new_Miner_pendingSpent: "pendingSpent (snd (new_Miner c now h kp sb rounds)) = 0"
  using new_Client_pendingSpent [of c kp sb]
  by (simp add: new_Miner_def Let_def client.defs split: prod.splits)

lemma availableGold_no_pending: "pendingSpent cl = 0 \<Longrightarrow> availableGold h cl = confirmedBalance h cl"
  by (simp add: availableGold_def option.map_ident)

text \<open>
  C10. \<open>pendingSpent\<close> is 0 in a client and in a miner when they are constructed, and
  after any run of their operations; so the available gold is the confirmed balance, and
  posting a transaction leaves it as it is.
\<close>

theorem pendingSpent_stays_zero:
  "(run_client c (h, new_Client c kp sb) ops = Some (h', cl') \<longrightarrow>
      pendingSpent cl' = 0 \<and> availableGold h' cl' = confirmedBalance h' cl')
   \<and> (run_miner c (new_Miner c now h kp sb rounds) mops = Some (h'', m') \<longrightarrow>
      pendingSpent m' = 0 \<and> availableGold h'' m' = confirmedBalance h'' m')
   \<and> availableGold h (snd (postTransaction c h cl outs fee')) = availableGold h cl"
proof -
  have "pendingSpent cl' = 0" if "run_client c (h, new_Client c kp sb) ops = Some (h', cl')"
    using run_client_pendingSpent [OF that] by (simp add: new_Client_pendingSpent)
  moreover have "pendingSpent m' = 0" if "run_miner c (new_Miner c now h kp sb rounds) mops = Some (h'', m')"
  proof -
    obtain h0 m0 where nm: "new_Miner c now h kp sb rounds = (h0, m0)"
      by (cases "new_Miner c now h kp sb rounds")
    with that run_miner_pendingSpent [of c h0 m0 mops h'' m'] new_Miner_pendingSpent [of c now h kp sb rounds]
    show ?thesis by simp
  qed
  moreover have "availableGold h (snd (postTransaction c h cl outs fee')) = availableGold h cl"
    by (simp add: postTransaction_def availableGold_def confirmedBalance_def Let_def split: option.splits)
  ultimately show ?thesis
    by (simp add: availableGold_no_pending)
qed


theorem pendingSpent_stays_zero_witness:
  "run_client demo_crypto (demo_heap, demo_client) [(1, 0, PostTransaction [] 1)]
     = Some (demo_heap, snd (postTransaction demo_crypto demo_heap demo_client [] 1))
   \<and> pendingSpent (snd (postTransaction demo_crypto demo_heap demo_client [] 1)) = 0
   \<and> run_miner demo_crypto (new_Miner demo_crypto 0 demo_heap demo_keys (Some demo_prev) 2000)
         [(1, 0, AnnounceProof)]
       = Some (fst (new_Miner demo_crypto 0 demo_heap demo_keys (Some demo_prev) 2000),
               announceProof (snd (new_Miner demo_crypto 0 demo_heap demo_keys (Some demo_prev) 2000)))
   \<and> pendingSpent (announceProof (snd (new_Miner demo_crypto 0 demo_heap demo_keys (Some demo_prev) 2000))) = 0"
proof -
  let ?cl = "snd (postTransaction demo_crypto demo_heap demo_client [] 1)"
  let ?nm = "new_Miner demo_crypto 0 demo_heap demo_keys (Some demo_prev) 2000"
  have rc: "run_client demo_crypto (demo_heap, new_Client demo_crypto demo_keys (Some demo_prev))
      [(1, 0, PostTransaction [] 1)]
      = Some (demo_heap, snd (postTransaction demo_crypto demo_heap
          (new_Client demo_crypto demo_keys (Some demo_prev)) [] 1))"
    by (simp add: run_client_op_def)
  have rm: "run_miner demo_crypto ?nm [(1, 0, AnnounceProof)] = Some (fst ?nm, announceProof (snd ?nm))"
    by (simp add: run_miner_op_def split: prod.splits)
  note inv = pendingSpent_stays_zero [of demo_crypto demo_heap demo_keys "Some demo_prev"
      "[(1, 0, PostTransaction [] 1)]" demo_heap
      "snd (postTransaction demo_crypto demo_heap (new_Client demo_crypto demo_keys (Some demo_prev)) [] 1)"
      0 2000 "[(1, 0, AnnounceProof)]" "fst ?nm"
      "announceProof (snd ?nm)"]
  have a: "pendingSpent ?cl = 0"
    using inv [THEN conjunct1, rule_format, OF rc] by (simp add: demo_client_def)
  have b: "pendingSpent (announceProof (snd ?nm)) = 0"
    using inv [THEN conjunct2, THEN conjunct1, rule_format, OF rm] by blast
  from rc have "run_client demo_crypto (demo_heap, demo_client) [(1, 0, PostTransaction [] 1)]
      = Some (demo_heap, ?cl)"
    by (simp only: demo_client_def)
  with rm a b show ?thesis
    by blast
qed

section \<open>Posting a transaction\<close>






section \<open>Receiving a block\<close>

subsection \<open>Rerun keeps what is serialized\<close>






subsection \<open>The walk to the confirmed block ends\<close>




subsection \<open>The blocks that wait\<close>





subsection \<open>\<open>receiveBlock\<close> returns\<close>





subsection \<open>The instance\<close>





















section \<open>What \<open>receiveBlock\<close> returns\<close>














section \<open>Fork choice\<close>












end
